theory Spec2Isabelle
  imports Main
begin

section \<open>Data model of the store (client/src/stores/DataStore.ts)\<close>

text \<open>
  The rows, filter conditions and sort conditions are the interfaces of lines 5-26
  (the row's \<^verbatim>\<open>id\<close> is \<open>item_id\<close> here, the columns of the two conditions are
  \<open>fcolumn\<close> and \<open>scolumn\<close>, and the pagination's \<^verbatim>\<open>total\<close> is \<open>total_rows\<close>).
  A filter's \<^verbatim>\<open>value: any\<close> is a small JSON value. The numeric fields hold whole
  numbers, modelled as \<open>int\<close>; what arithmetic on them yields is a \<open>js_number\<close>, defined
  below. An optional field of \<^verbatim>\<open>TablePaginationConfig\<close> is an \<open>option\<close>, with \<open>None\<close>
  for \<^verbatim>\<open>undefined\<close>.
\<close>

record DataItem =
  item_id :: int
  name :: string
  version :: string
  created_at :: string
  desc :: string
  country :: int
  count :: int
  parent :: "int option"

datatype jsvalue = JNull | JBool bool | JNum int | JStr string | JArr "jsvalue list"

record FilterCondition =
  fcolumn :: string
  operator :: string
  fvalue :: jsvalue

record SortCondition =
  scolumn :: string
  direction :: string
  priority :: int

text \<open>Only the three fields of the pagination descriptor that the store reads or writes.\<close>

record TablePaginationConfig =
  current :: "int option"
  pageSize :: "int option"
  total_rows :: "int option"

record DataStore =
  data :: "DataItem list"
  loading :: bool
  error :: "string option"
  pagination :: TablePaginationConfig
  filters :: "FilterCondition list"
  sorts :: "SortCondition list"
  globalSearch :: string
  maxRecords :: int
  isFetching :: bool

text \<open>The field initialisers of the class, lines 29-46.\<close>

definition initial_store :: DataStore where
  "initial_store =
     \<lparr>data = [], loading = False, error = None,
      pagination = \<lparr>current = Some 1, pageSize = Some 1000, total_rows = Some 0\<rparr>,
      filters = [], sorts = [], globalSearch = [],
      maxRecords = 3000, isFetching = False\<rparr>"

subsection \<open>Numbers\<close>

text \<open>
  A JavaScript number is an IEEE 754 double. The result of \<^verbatim>\<open>-\<close> and \<^verbatim>\<open>*\<close> on two
  finite whole numbers is the exact result rounded to the nearest double, ties to the even
  significand, and an infinity when that is beyond the largest double. \<open>bitlen\<close> is the
  number of binary digits of a positive number; \<open>round53\<close> keeps the leading 53 of them,
  rounded; \<open>to_double\<close> is the rounding of an exact whole result. The other cases of
  \<open>js_sub\<close> and \<open>js_mul\<close> are those of IEEE arithmetic on infinities and NaN.
\<close>

datatype js_number = Finite int | PosInfinity | NegInfinity | NaN

function bitlen :: "int \<Rightarrow> nat" where
  "bitlen n = (if n \<le> 0 then 0 else Suc (bitlen (n div 2)))"
  by pat_completeness auto
termination
  by (relation "measure nat") auto

declare bitlen.simps [simp del]

definition round53 :: "int \<Rightarrow> int" where
  "round53 m =
     (if m < 2 ^ 53 then m
      else (let e = bitlen m - 53; q = m div 2 ^ e; r = m mod 2 ^ e; half = 2 ^ (e - 1)
            in (if half < r then q + 1
                else if r = half \<and> q mod 2 = 1 then q + 1
                else q) * 2 ^ e))"

definition inf_of :: "bool \<Rightarrow> js_number" where
  "inf_of negative = (if negative then NegInfinity else PosInfinity)"

definition to_double :: "int \<Rightarrow> js_number" where
  "to_double x =
     (let m = round53 \<bar>x\<bar>
      in if 1024 < bitlen m then inf_of (x < 0)
         else Finite (if x < 0 then - m else m))"

definition js_sub :: "js_number \<Rightarrow> js_number \<Rightarrow> js_number" where
  "js_sub x y =
     (case x of
        Finite a \<Rightarrow>
          (case y of Finite b \<Rightarrow> to_double (a - b) | PosInfinity \<Rightarrow> NegInfinity
                   | NegInfinity \<Rightarrow> PosInfinity | NaN \<Rightarrow> NaN)
      | PosInfinity \<Rightarrow>
          (case y of Finite b \<Rightarrow> PosInfinity | PosInfinity \<Rightarrow> NaN
                   | NegInfinity \<Rightarrow> PosInfinity | NaN \<Rightarrow> NaN)
      | NegInfinity \<Rightarrow>
          (case y of Finite b \<Rightarrow> NegInfinity | PosInfinity \<Rightarrow> NegInfinity
                   | NegInfinity \<Rightarrow> NaN | NaN \<Rightarrow> NaN)
      | NaN \<Rightarrow> NaN)"

definition js_mul :: "js_number \<Rightarrow> js_number \<Rightarrow> js_number" where
  "js_mul x y =
     (case x of
        Finite a \<Rightarrow>
          (case y of Finite b \<Rightarrow> to_double (a * b)
                   | PosInfinity \<Rightarrow> (if a = 0 then NaN else inf_of (a < 0))
                   | NegInfinity \<Rightarrow> (if a = 0 then NaN else inf_of (0 < a))
                   | NaN \<Rightarrow> NaN)
      | PosInfinity \<Rightarrow>
          (case y of Finite b \<Rightarrow> (if b = 0 then NaN else inf_of (b < 0))
                   | PosInfinity \<Rightarrow> PosInfinity | NegInfinity \<Rightarrow> NegInfinity
                   | NaN \<Rightarrow> NaN)
      | NegInfinity \<Rightarrow>
          (case y of Finite b \<Rightarrow> (if b = 0 then NaN else inf_of (0 < b))
                   | PosInfinity \<Rightarrow> NegInfinity | NegInfinity \<Rightarrow> PosInfinity
                   | NaN \<Rightarrow> NaN)
      | NaN \<Rightarrow> NaN)"

subsection \<open>The wire contract\<close>

text \<open>
  The object handed to \<^verbatim>\<open>JSON.stringify\<close> for the body of the POST request (lines 64-70
  and 136-142). \<^verbatim>\<open>offset\<close> is the number the code computed (a non-finite one is written
  as \<^verbatim>\<open>null\<close>). \<^verbatim>\<open>limit\<close> is the raw \<^verbatim>\<open>pageSize\<close> in a full refresh, which may be
  undefined.
\<close>

record DataRequest =
  offset :: js_number
  limit :: "int option"
  rfilters :: "FilterCondition list"
  rsorts :: "SortCondition list"
  global_search :: string

record PageResult =
  rdata :: "DataItem list"
  rtotal :: int

text \<open>
  What \<^verbatim>\<open>await fetch(...)\<close> and \<^verbatim>\<open>await response.json()\<close> can do: throw a value
  (an \<^verbatim>\<open>Error\<close> with its message, or something else), or deliver a response with its
  \<^verbatim>\<open>ok\<close> flag, its status and its body.
\<close>

datatype js_exn = ErrorObj string | OtherThrown

datatype body = BodyThrows js_exn | Body PageResult

record Response =
  ok :: bool
  status :: nat
  json :: body

datatype fetch_result = FetchThrows js_exn | FetchResolves Response

subsection \<open>JavaScript primitives used by the store\<close>

text \<open>\<^verbatim>\<open>x || d\<close> on an optional number: undefined and 0 are falsy.\<close>

definition js_or :: "int option \<Rightarrow> int \<Rightarrow> int" where
  "js_or x d = (case x of None \<Rightarrow> d | Some v \<Rightarrow> if v = 0 then d else v)"

text \<open>
  \<^verbatim>\<open>xs.slice(start)\<close>: a negative start counts from the end and is clamped at the
  front, a non-negative start is clamped at the length.
\<close>

definition slice_from :: "'a list \<Rightarrow> int \<Rightarrow> 'a list" where
  "slice_from xs start =
     (let len = int (length xs);
          k = (if start < 0 then max (len + start) 0 else min start len)
      in drop (nat k) xs)"

text \<open>
  The same on any number: \<^verbatim>\<open>slice\<close> takes NaN as 0, so does minus infinity after the
  clamp, and plus infinity is clamped to the length.
\<close>

definition js_slice :: "'a list \<Rightarrow> js_number \<Rightarrow> 'a list" where
  "js_slice xs start =
     (case start of
        Finite k \<Rightarrow> slice_from xs k
      | PosInfinity \<Rightarrow> []
      | NegInfinity \<Rightarrow> xs
      | NaN \<Rightarrow> xs)"

text \<open>Decimal rendering of a number inside a template string.\<close>

fun show_nat :: "nat \<Rightarrow> string" where
  "show_nat n =
     (if n < 10 then [char_of (48 + n)]
      else show_nat (n div 10) @ [char_of (48 + n mod 10)])"

declare show_nat.simps [simp del]

text \<open>\<^verbatim>\<open>error instanceof Error ? error.message : "Unknown error"\<close>\<close>

definition message :: "js_exn \<Rightarrow> string" where
  "message e = (case e of ErrorObj m \<Rightarrow> m | OtherThrown \<Rightarrow> ''Unknown error'')"

text \<open>
  The part of the \<^verbatim>\<open>try\<close> block shared by both fetches (lines 59-77 and 131-149):
  the value of \<^verbatim>\<open>result\<close>, or the exception that reaches \<^verbatim>\<open>catch\<close>.
\<close>

definition await_result :: "fetch_result \<Rightarrow> js_exn + PageResult" where
  "await_result r =
     (case r of
        FetchThrows e \<Rightarrow> Inl e
      | FetchResolves resp \<Rightarrow>
          if \<not> ok resp then Inl (ErrorObj (''HTTP error! status: '' @ show_nat (status resp)))
          else (case json resp of BodyThrows e \<Rightarrow> Inl e | Body res \<Rightarrow> Inr res))"

section \<open>Operations of the store\<close>

subsection \<open>fetchData, lines 48-95\<close>

text \<open>
  The method is asynchronous. \<open>fetchData_begin\<close> is what runs up to the
  \<^verbatim>\<open>await fetch\<close>: the guard, the three flag writes and the request that is sent
  (\<open>None\<close> when the call returns at the guard). \<open>fetchData_finish\<close> is what runs when
  the request settles: the success action or the \<^verbatim>\<open>catch\<close> action, then \<^verbatim>\<open>finally\<close>.
  The offset of line 57 is computed in double arithmetic: first the difference, then the
  product.
\<close>

definition fetchData_request :: "DataStore \<Rightarrow> DataRequest" where
  "fetchData_request s =
     \<lparr>offset = js_mul (js_sub (Finite (js_or (current (pagination s)) 1)) (Finite 1))
                       (Finite (js_or (pageSize (pagination s)) 1000)),
      limit = pageSize (pagination s),
      rfilters = filters s, rsorts = sorts s, global_search = globalSearch s\<rparr>"

definition fetchData_begin :: "DataStore \<Rightarrow> DataStore \<times> DataRequest option" where
  "fetchData_begin s =
     (if isFetching s then (s, None)
      else (let s1 = s\<lparr>isFetching := True, loading := True, error := None\<rparr>
            in (s1, Some (fetchData_request s1))))"

definition fetchData_finish :: "DataStore \<Rightarrow> fetch_result \<Rightarrow> DataStore" where
  "fetchData_finish s r =
     (let s1 = (case await_result r of
                  Inr res \<Rightarrow>
                    s\<lparr>data := rdata res,
                      pagination := (pagination s)\<lparr>total_rows := Some (rtotal res)\<rparr>,
                      loading := False\<rparr>
                | Inl e \<Rightarrow> s\<lparr>error := Some (message e), loading := False\<rparr>)
      in s1\<lparr>isFetching := False\<rparr>)"

subsection \<open>The setters, lines 97-123\<close>

text \<open>
  \<open>setPagination\<close> is called directly. The other three are the handlers handed to
  \<^verbatim>\<open>debounce\<close>: what runs when the timer fires.
\<close>

definition setPagination :: "TablePaginationConfig \<Rightarrow> DataStore \<Rightarrow> DataStore \<times> DataRequest option" where
  "setPagination p s = fetchData_begin (s\<lparr>pagination := p\<rparr>)"

definition setFilters_handler :: "FilterCondition list \<Rightarrow> DataStore \<Rightarrow> DataStore \<times> DataRequest option" where
  "setFilters_handler fs s =
     fetchData_begin (s\<lparr>filters := fs, pagination := (pagination s)\<lparr>current := Some 1\<rparr>\<rparr>)"

definition setSorts_handler :: "SortCondition list \<Rightarrow> DataStore \<Rightarrow> DataStore \<times> DataRequest option" where
  "setSorts_handler ss s = fetchData_begin (s\<lparr>sorts := ss\<rparr>)"

definition setGlobalSearch_handler :: "string \<Rightarrow> DataStore \<Rightarrow> DataStore \<times> DataRequest option" where
  "setGlobalSearch_handler q s =
     fetchData_begin (s\<lparr>globalSearch := q, pagination := (pagination s)\<lparr>current := Some 1\<rparr>\<rparr>)"

subsection \<open>handleScrollLoad, lines 125-158\<close>

text \<open>
  \<open>handleScrollLoad_begin\<close> runs up to the \<^verbatim>\<open>await fetch\<close>: the trim of lines 126-128,
  which happens before the request is sent, and the request. \<open>handleScrollLoad_finish\<close>
  runs when the request settles; the \<^verbatim>\<open>catch\<close> branch only writes to the console,
  so it leaves the store as it is.

  The start of the slice, \<^verbatim>\<open>-this.maxRecords + limit\<close>, is written as the exact sum. The
  code rounds it to a double, which makes no difference to the slice of an array: a sum
  that rounding changes is beyond \<open>2 ^ 53\<close> in size, and so is the rounded one, on the
  same side, where the clamp of \<^verbatim>\<open>slice\<close> gives the same rows for every array, which
  has fewer than \<open>2 ^ 32\<close> elements (lemma \<open>slice_start_exact\<close> below).
\<close>

definition handleScrollLoad_begin :: "DataStore \<Rightarrow> int \<Rightarrow> int \<Rightarrow> DataStore \<times> DataRequest" where
  "handleScrollLoad_begin s off lim =
     (let s1 = (if maxRecords s \<le> int (length (data s))
                then s\<lparr>data := slice_from (data s) (- maxRecords s + lim)\<rparr>
                else s)
      in (s1, \<lparr>offset = Finite off, limit = Some lim,
               rfilters = filters s1, rsorts = sorts s1, global_search = globalSearch s1\<rparr>))"

definition handleScrollLoad_finish :: "DataStore \<Rightarrow> fetch_result \<Rightarrow> DataStore" where
  "handleScrollLoad_finish s r =
     (case await_result r of
        Inr res \<Rightarrow>
          s\<lparr>data := data s @ rdata res,
            pagination := (pagination s)\<lparr>total_rows := Some (rtotal res)\<rparr>\<rparr>
      | Inl e \<Rightarrow> s)"

text \<open>One scroll load from the call to its completion, with nothing else in between.\<close>

definition handleScrollLoad :: "DataStore \<Rightarrow> int \<Rightarrow> int \<Rightarrow> fetch_result \<Rightarrow> DataStore" where
  "handleScrollLoad s off lim r = handleScrollLoad_finish (fst (handleScrollLoad_begin s off lim)) r"

subsection \<open>handleScroll of the table component, lines 55-67\<close>

text \<open>
  The scroll geometry is taken in whole units. In the DOM \<^verbatim>\<open>scrollHeight\<close> and
  \<^verbatim>\<open>clientHeight\<close> are 32-bit integers and \<^verbatim>\<open>scrollTop\<close> lies between 0 and
  \<^verbatim>\<open>scrollHeight\<close>, so the sum and the difference of line 60 are exact in doubles.
\<close>

definition handleScroll :: "int \<Rightarrow> int \<Rightarrow> int \<Rightarrow> DataStore \<Rightarrow> DataStore \<times> DataRequest option" where
  "handleScroll scrollTop scrollHeight clientHeight s =
     (if scrollHeight - (scrollTop + clientHeight) < 100
         \<and> \<not> loading s
         \<and> int (length (data s)) < js_or (total_rows (pagination s)) 0
      then (let nextOffset = int (length (data s));
                (s1, rq) = handleScrollLoad_begin s nextOffset (js_or (pageSize (pagination s)) 1000)
            in (s1, Some rq))
      else (s, None))"

section \<open>The store with its requests in flight\<close>

text \<open>
  Everything runs on one thread and is suspended only at the two \<^verbatim>\<open>await fetch\<close>
  points, so a run of the view is a sequence of events: a call of a store method (by the
  component, or by a debounce timer that fires), a scroll event, or a request that
  settles. The system is the store together with the requests that have been sent and
  have not settled yet, one list for each kind of fetch. Scroll loads may settle in any
  order, so \<open>ScrollSettles\<close> names the position of the request that settles.
\<close>

record system =
  store :: DataStore
  refreshing :: "DataRequest list"
  scrolling :: "DataRequest list"

datatype event =
    CallFetchData
  | CallSetPagination TablePaginationConfig
  | FiltersFire "FilterCondition list"
  | SortsFire "SortCondition list"
  | SearchFire string
  | ScrollEvent int int int
  | RefreshSettles fetch_result
  | ScrollSettles nat fetch_result

definition refresh_sent :: "DataStore \<times> DataRequest option \<Rightarrow> system \<Rightarrow> system" where
  "refresh_sent out sys =
     sys\<lparr>store := fst out,
         refreshing := refreshing sys @ (case snd out of None \<Rightarrow> [] | Some rq \<Rightarrow> [rq])\<rparr>"

definition scroll_sent :: "DataStore \<times> DataRequest option \<Rightarrow> system \<Rightarrow> system" where
  "scroll_sent out sys =
     sys\<lparr>store := fst out,
         scrolling := scrolling sys @ (case snd out of None \<Rightarrow> [] | Some rq \<Rightarrow> [rq])\<rparr>"

fun step :: "event \<Rightarrow> system \<Rightarrow> system" where
  "step CallFetchData sys = refresh_sent (fetchData_begin (store sys)) sys"
| "step (CallSetPagination p) sys = refresh_sent (setPagination p (store sys)) sys"
| "step (FiltersFire fs) sys = refresh_sent (setFilters_handler fs (store sys)) sys"
| "step (SortsFire ss) sys = refresh_sent (setSorts_handler ss (store sys)) sys"
| "step (SearchFire q) sys = refresh_sent (setGlobalSearch_handler q (store sys)) sys"
| "step (ScrollEvent t h c) sys = scroll_sent (handleScroll t h c (store sys)) sys"
| "step (RefreshSettles r) sys =
     (case refreshing sys of
        [] \<Rightarrow> sys
      | q # qs \<Rightarrow> sys\<lparr>store := fetchData_finish (store sys) r, refreshing := qs\<rparr>)"
| "step (ScrollSettles i r) sys =
     (if i < length (scrolling sys)
      then sys\<lparr>store := handleScrollLoad_finish (store sys) r,
               scrolling := take i (scrolling sys) @ drop (Suc i) (scrolling sys)\<rparr>
      else sys)"

fun run :: "event list \<Rightarrow> system \<Rightarrow> system" where
  "run [] sys = sys"
| "run (e # es) sys = run es (step e sys)"

text \<open>The exported singleton of line 161, with nothing sent yet.\<close>

definition boot :: system where
  "boot = \<lparr>store = initial_store, refreshing = [], scrolling = []\<rparr>"

text \<open>
  What the guard of \<open>fetchData\<close> maintains: the flag \<open>isFetching\<close> is set exactly while
  a full refresh is in flight, there is never a second one, and \<open>loading\<close>, which the
  scroll handler reads, agrees with the flag between events.
\<close>

definition guard_inv :: "system \<Rightarrow> bool" where
  "guard_inv sys =
     (length (refreshing sys) \<le> 1
      \<and> isFetching (store sys) = (refreshing sys \<noteq> [])
      \<and> loading (store sys) = isFetching (store sys))"

section \<open>The debounce scheduler\<close>

text \<open>
  Modelled from the spec: the function \<^verbatim>\<open>debounce\<close> of \<^verbatim>\<open>utils/debounce.ts\<close>, which
  the store imports on line 3 and whose source is not available. The spec
  (section 4.1) says: each invocation of the wrapped function schedules the handler to
  run after the quiet period; if another invocation arrives before the timer fires, the
  pending timer is cancelled and replaced; nothing happens until the timer fires.

  Time is a count of milliseconds. A debounced function owns its quiet period and at most
  one pending timer, with the time at which it is due and the arguments it will pass.
\<close>

record 'a debounced =
  quiet :: nat
  pending :: "(nat \<times> 'a) option"

text \<open>
  Modelled from the spec: the timer of \<^verbatim>\<open>debounce\<close> firing. The clock reaches \<open>now\<close>;
  a pending timer that is due runs the handler with its arguments and is gone.
\<close>

definition elapse :: "nat \<Rightarrow> 'a debounced \<Rightarrow> 'a list \<times> 'a debounced" where
  "elapse now d =
     (case pending d of
        None \<Rightarrow> ([], d)
      | Some (due, a) \<Rightarrow> if due \<le> now then ([a], d\<lparr>pending := None\<rparr>) else ([], d))"

text \<open>
  Modelled from the spec: one invocation of the function that \<^verbatim>\<open>debounce\<close> returns, at
  time \<open>now\<close>. A timer that was due by then has fired; one that was not is replaced by
  the new timer, due one quiet period from now.
\<close>

definition schedule :: "nat \<Rightarrow> 'a \<Rightarrow> 'a debounced \<Rightarrow> 'a list \<times> 'a debounced" where
  "schedule now a d =
     (let (fired, d1) = elapse now d
      in (fired, d1\<lparr>pending := Some (now + quiet d1, a)\<rparr>))"

text \<open>
  Modelled from the spec: a sequence of timed invocations, and the handler invocations, in
  order, that they cause once the clock has run on after the last of them.
\<close>

fun schedule_all :: "(nat \<times> 'a) list \<Rightarrow> 'a debounced \<Rightarrow> 'a list \<times> 'a debounced" where
  "schedule_all [] d = ([], d)"
| "schedule_all ((now, a) # cs) d =
     (let (fired, d1) = schedule now a d;
          (fired', d2) = schedule_all cs d1
      in (fired @ fired', d2))"

definition handler_calls :: "nat \<Rightarrow> (nat \<times> 'a) list \<Rightarrow> 'a list" where
  "handler_calls w cs =
     (let (fired, d) = schedule_all cs \<lparr>quiet = w, pending = None\<rparr>
      in fired @ (case pending d of None \<Rightarrow> [] | Some (due, a) \<Rightarrow> [a]))"

text \<open>
  A burst: at least one call, the calls in order of time, each less than the quiet
  period after the one before it.
\<close>

fun within_quiet :: "nat \<Rightarrow> nat \<Rightarrow> (nat \<times> 'a) list \<Rightarrow> bool" where
  "within_quiet w t [] = True"
| "within_quiet w t ((t', a) # cs) = (t \<le> t' \<and> t' < t + w \<and> within_quiet w t' cs)"

fun burst :: "nat \<Rightarrow> (nat \<times> 'a) list \<Rightarrow> bool" where
  "burst w [] = False"
| "burst w ((t, a) # cs) = within_quiet w t cs"

text \<open>The quiet periods the store passes to \<^verbatim>\<open>debounce\<close> on lines 108, 115 and 123.\<close>

datatype channel = FiltersChannel | SortsChannel | SearchChannel

fun quiet_period :: "channel \<Rightarrow> nat" where
  "quiet_period FiltersChannel = 300"
| "quiet_period SortsChannel = 300"
| "quiet_period SearchChannel = 500"

section \<open>Concrete stores and responses\<close>

definition row :: "int \<Rightarrow> DataItem" where
  "row i = \<lparr>item_id = i, name = ''row'', version = ''1'', created_at = ''2024-01-01'',
            desc = [], country = 0, count = 0, parent = None\<rparr>"

text \<open>A successful response carrying \<open>n\<close> rows and the total \<open>t\<close>.\<close>

definition page_of :: "nat \<Rightarrow> int \<Rightarrow> int \<Rightarrow> fetch_result" where
  "page_of n i t =
     FetchResolves \<lparr>ok = True, status = 200,
                    json = Body \<lparr>rdata = replicate n (row i), rtotal = t\<rparr>\<rparr>"

text \<open>The store as constructed, holding \<open>n\<close> rows of a dataset of 5000.\<close>

definition cached :: "nat \<Rightarrow> DataStore" where
  "cached n =
     initial_store\<lparr>data := replicate n (row 0),
                   pagination := \<lparr>current = Some 1, pageSize = Some 1000, total_rows = Some 5000\<rparr>\<rparr>"

text \<open>The store as constructed, after the user moved to page 3.\<close>

definition on_page3 :: DataStore where
  "on_page3 =
     initial_store\<lparr>pagination := \<lparr>current = Some 3, pageSize = Some 1000, total_rows = Some 5000\<rparr>\<rparr>"

text \<open>The store as constructed, after \<open>setPagination\<close> with a large page and page size.\<close>

definition far_page :: DataStore where
  "far_page =
     initial_store\<lparr>pagination :=
       \<lparr>current = Some 134217730, pageSize = Some 134217729, total_rows = Some 0\<rparr>\<rparr>"

text \<open>A full cache with nothing in flight.\<close>

definition full_cache :: system where
  "full_cache = \<lparr>store = cached 3000, refreshing = [], scrolling = []\<rparr>"

definition by_name :: SortCondition where
  "by_name = \<lparr>scolumn = ''name'', direction = ''asc'', priority = 1\<rparr>"

definition http_500 :: fetch_result where
  "http_500 = FetchResolves \<lparr>ok = False, status = 500, json = BodyThrows OtherThrown\<rparr>"

definition offline :: fetch_result where
  "offline = FetchThrows (ErrorObj ''Failed to fetch'')"

text \<open>Mounting the table, then the first page of 1000 rows out of 5000 arrives.\<close>

definition first_page_loaded :: "event list" where
  "first_page_loaded = [CallFetchData, RefreshSettles (page_of 1000 0 5000)]"

text \<open>Keystrokes of a search, in milliseconds; every gap is below 500.\<close>

definition typing :: "(nat \<times> string) list" where
  "typing = [(0, ''k''), (120, ''ka''), (520, ''kas''), (1019, ''kasp'')]"

section \<open>Double arithmetic\<close>

text \<open>
  Below \<open>2 ^ 53\<close> in size a whole number is a double, so rounding leaves it alone; at
  and above \<open>2 ^ 53\<close> the rounded value stays at or above \<open>2 ^ 53\<close>.
\<close>

lemma bitlen_le: "m < 2 ^ k \<Longrightarrow> bitlen m \<le> k"
proof (induction k arbitrary: m)
  case 0
  then show ?case by (simp add: bitlen.simps)
next
  case (Suc k)
  show ?case
  proof (cases "m \<le> 0")
    case True
    then show ?thesis by (simp add: bitlen.simps)
  next
    case False
    from Suc.prems have "m div 2 < 2 ^ k" by simp
    then have "bitlen (m div 2) \<le> k" by (rule Suc.IH)
    with False show ?thesis by (simp add: bitlen.simps [of m])
  qed
qed

lemma bitlen_upper: "m < 2 ^ bitlen m"
proof (induction m rule: bitlen.induct)
  case (1 n)
  show ?case
  proof (cases "n \<le> 0")
    case True
    then show ?thesis by (simp add: bitlen.simps)
  next
    case False
    with 1 have "n div 2 < 2 ^ bitlen (n div 2)" by simp
    then have "n < 2 * 2 ^ bitlen (n div 2)" by linarith
    with False show ?thesis by (simp add: bitlen.simps [of n])
  qed
qed

lemma bitlen_lower: "0 < m \<Longrightarrow> 2 ^ (bitlen m - 1) \<le> m"
proof (induction m rule: bitlen.induct)
  case (1 n)
  from "1.prems" have pos: "\<not> n \<le> 0" by simp
  show ?case
  proof (cases "n div 2 \<le> 0")
    case True
    then have "bitlen (n div 2) = 0" by (simp add: bitlen.simps)
    with pos "1.prems" show ?thesis by (simp add: bitlen.simps [of n])
  next
    case False
    then have h: "0 < n div 2" by simp
    with 1 pos have ih: "2 ^ (bitlen (n div 2) - 1) \<le> n div 2" by simp
    from h have "0 < bitlen (n div 2)" by (simp add: bitlen.simps [of "n div 2"])
    then have "(2::int) ^ bitlen (n div 2) = 2 * 2 ^ (bitlen (n div 2) - 1)"
      by (cases "bitlen (n div 2)") simp_all
    with ih have "2 ^ bitlen (n div 2) \<le> n" by linarith
    with pos show ?thesis by (simp add: bitlen.simps [of n])
  qed
qed

lemma to_double_safe: "\<bar>x\<bar> < 2 ^ 53 \<Longrightarrow> to_double x = Finite x"
proof -
  assume a: "\<bar>x\<bar> < 2 ^ 53"
  then have r: "round53 \<bar>x\<bar> = \<bar>x\<bar>" by (simp add: round53_def)
  from a have "bitlen \<bar>x\<bar> \<le> 53" by (rule bitlen_le)
  then have "\<not> 1024 < bitlen \<bar>x\<bar>" by simp
  with r show ?thesis by (simp add: to_double_def Let_def)
qed

lemma round53_ge:
  assumes big: "2 ^ 53 \<le> m"
  shows "2 ^ 53 \<le> round53 m"
proof -
  define e where "e = bitlen m - 53"
  define q where "q = m div 2 ^ e"
  have pos: "0 < m" using big by (rule less_le_trans [rotated]) simp
  have "m < 2 ^ bitlen m" by (rule bitlen_upper)
  with big have "(2::int) ^ 53 < 2 ^ bitlen m" by linarith
  then have len: "53 < bitlen m"
    using power_less_imp_less_exp [of "2::int" 53 "bitlen m"] by simp
  then have bl: "bitlen m - 1 = 52 + e" and e1: "1 \<le> e" by (simp_all add: e_def)
  from bitlen_lower [OF pos] bl have lo: "2 ^ 52 * 2 ^ e \<le> m" by (simp add: power_add)
  have "2 ^ 52 \<le> q"
  proof -
    have "(2 ^ 52 * 2 ^ e) div 2 ^ e \<le> m div 2 ^ e"
      using lo by (rule zdiv_mono1) simp
    then show ?thesis by (simp add: q_def)
  qed
  moreover have "(2::int) \<le> 2 ^ e" using e1 by (cases e) simp_all
  ultimately have "2 ^ 52 * 2 \<le> q * 2 ^ e" by (intro mult_mono) simp_all
  then have a: "2 ^ 53 \<le> q * 2 ^ e" by simp
  have "q * 2 ^ e \<le> (q + 1) * 2 ^ e" by (simp add: distrib_right)
  with a have b: "2 ^ 53 \<le> (q + 1) * 2 ^ e" by (rule order_trans)
  have "round53 m = q * 2 ^ e \<or> round53 m = (q + 1) * 2 ^ e"
    using big by (auto simp: round53_def Let_def e_def q_def)
  then show ?thesis
  proof
    assume "round53 m = q * 2 ^ e"
    with a show ?thesis by simp
  next
    assume "round53 m = (q + 1) * 2 ^ e"
    with b show ?thesis by simp
  qed
qed

lemma slice_start_exact:
  assumes len: "int (length xs) < 2 ^ 53"
  shows "js_slice xs (to_double k) = slice_from xs k"
proof (cases "\<bar>k\<bar> < 2 ^ 53")
  case True
  then show ?thesis by (simp add: to_double_safe js_slice_def)
next
  case False
  then have "2 ^ 53 \<le> round53 \<bar>k\<bar>" by (intro round53_ge) simp
  with len have m: "int (length xs) < round53 \<bar>k\<bar>" by linarith
  from False len have k: "int (length xs) < \<bar>k\<bar>" by linarith
  show ?thesis
  proof (cases "k < 0")
    case True
    with m k show ?thesis
      by (simp add: to_double_def Let_def inf_of_def js_slice_def slice_from_def)
  next
    case False
    with m k show ?thesis
      by (simp add: to_double_def Let_def inf_of_def js_slice_def slice_from_def)
  qed
qed

text \<open>Rounding moves a number by at most one part in \<open>2 ^ 53\<close> of its size.\<close>

lemma round53_error:
  assumes "0 \<le> m"
  shows "\<bar>round53 m - m\<bar> * 2 ^ 53 \<le> m"
proof (cases "m < 2 ^ 53")
  case True
  with assms show ?thesis by (simp add: round53_def)
next
  case False
  then have big: "2 ^ 53 \<le> m" by simp
  define e where "e = bitlen m - 53"
  define q where "q = m div 2 ^ e"
  define r where "r = m mod 2 ^ e"
  define half :: int where "half = 2 ^ (e - 1)"
  have pos: "0 < m" using big by (rule less_le_trans [rotated]) simp
  have "m < 2 ^ bitlen m" by (rule bitlen_upper)
  with big have "(2::int) ^ 53 < 2 ^ bitlen m" by linarith
  then have len: "53 < bitlen m"
    using power_less_imp_less_exp [of "2::int" 53 "bitlen m"] by simp
  then have bl: "bitlen m - 1 = 53 + (e - 1)" and e1: "1 \<le> e" by (simp_all add: e_def)
  from bitlen_lower [OF pos] bl have lo: "half * 2 ^ 53 \<le> m"
    by (simp add: power_add half_def mult.commute)
  have two: "(2::int) ^ e = 2 * half"
    using e1 by (cases e) (simp_all add: half_def)
  have "m = q * 2 ^ e + r" unfolding q_def r_def by (rule div_mult_mod_eq [symmetric])
  then have m: "m = q * (2 * half) + r" by (simp only: two)
  have r0: "0 \<le> r" by (simp add: r_def)
  have "r < 2 ^ e" by (simp add: r_def)
  then have r1: "r < 2 * half" by (simp only: two)
  have hp: "0 < half" by (simp add: half_def)
  have rd: "round53 m = (if half < r then q + 1 else if r = half \<and> q mod 2 = 1 then q + 1 else q) * (2 * half)"
    using False two by (simp add: round53_def Let_def e_def q_def r_def half_def)
  have "\<bar>round53 m - m\<bar> \<le> half"
  proof -
    have "round53 m - m = (if half < r then 2 * half - r else if r = half \<and> q mod 2 = 1 then 2 * half - r else - r)"
      unfolding rd using m by (simp add: algebra_simps)
    then show ?thesis using r0 r1 hp by (auto split: if_splits)
  qed
  then have "\<bar>round53 m - m\<bar> * 2 ^ 53 \<le> half * 2 ^ 53"
    by (rule mult_right_mono) simp
  with lo show ?thesis by linarith
qed

lemma to_double_error:
  assumes "to_double x = Finite y"
  shows "\<bar>y - x\<bar> * 2 ^ 53 \<le> \<bar>x\<bar>"
proof -
  define a where "a = \<bar>x\<bar>"
  have bound: "\<bar>round53 a - a\<bar> * 2 ^ 53 \<le> a"
    by (rule round53_error) (simp add: a_def)
  have "\<bar>y - x\<bar> = \<bar>round53 a - a\<bar>"
  proof (cases "x < 0")
    case True
    with assms have "y = - round53 a"
      by (simp add: to_double_def Let_def inf_of_def a_def split: if_splits)
    with True show ?thesis by (simp add: a_def abs_if)
  next
    case False
    with assms have "y = round53 a"
      by (simp add: to_double_def Let_def inf_of_def a_def split: if_splits)
    with False show ?thesis by (simp add: a_def)
  qed
  with bound show ?thesis by (simp add: a_def)
qed

text \<open>Ties go to the even significand.\<close>

lemma rounding_examples:
  "to_double (2 ^ 53 + 1) = Finite (2 ^ 53)"
  "to_double (2 ^ 53 + 3) = Finite (2 ^ 53 + 4)"
  "to_double (- (2 ^ 54 + 6)) = Finite (- (2 ^ 54 + 8))"
  "to_double (2 ^ 54 - 1) = Finite (2 ^ 54)"
  by code_simp+

lemma refresh_offset_exact:
  "\<bar>c - 1\<bar> < 2 ^ 53 \<Longrightarrow> \<bar>(c - 1) * p\<bar> < 2 ^ 53 \<Longrightarrow>
     js_mul (js_sub (Finite c) (Finite 1)) (Finite p) = Finite ((c - 1) * p)"
  by (simp add: js_mul_def js_sub_def to_double_safe)

lemma refresh_offset_page1: "js_mul (js_sub (Finite 1) (Finite 1)) (Finite p) = Finite 0"
  using refresh_offset_exact [of 1 p] by simp

lemma slice_from_nonneg: "0 \<le> start \<Longrightarrow> slice_from xs start = drop (nat start) xs"
  by (auto simp: slice_from_def Let_def min_def)

section \<open>Full refresh\<close>

lemma await_page_of:
  "await_result (page_of n i t) = Inr \<lparr>rdata = replicate n (row i), rtotal = t\<rparr>"
  by (simp add: page_of_def await_result_def)

lemma await_http_500: "await_result http_500 = Inl (ErrorObj ''HTTP error! status: 500'')"
proof -
  have "show_nat 500 = ''500''" by code_simp
  then show ?thesis by (simp add: await_result_def http_500_def)
qed

lemma await_offline: "await_result offline = Inl (ErrorObj ''Failed to fetch'')"
  by (simp add: await_result_def offline_def)

text \<open>
  C9. When a full refresh succeeds, the rows of the store become the rows of the response
  as they are, whatever \<open>maxRecords\<close> is, and the total of the pagination becomes the total
  of the response.
\<close>

theorem full_refresh_replaces:
  "await_result r = Inr res \<Longrightarrow>
     data (fetchData_finish s r) = rdata res \<and>
     total_rows (pagination (fetchData_finish s r)) = Some (rtotal res)"
  by (simp add: fetchData_finish_def)

text \<open>A response of 4000 rows replaces a cache of 3000, beyond the capacity of 3000.\<close>

theorem full_refresh_replaces_witness:
  "await_result (page_of 4000 7 9000) = Inr \<lparr>rdata = replicate 4000 (row 7), rtotal = 9000\<rparr> \<and>
   data (fetchData_finish (cached 3000) (page_of 4000 7 9000)) = replicate 4000 (row 7) \<and>
   total_rows (pagination (fetchData_finish (cached 3000) (page_of 4000 7 9000))) = Some 9000"
proof -
  have h: "await_result (page_of 4000 7 9000) = Inr \<lparr>rdata = replicate 4000 (row 7), rtotal = 9000\<rparr>"
    by (rule await_page_of)
  show ?thesis
    using h full_refresh_replaces [OF h, of "cached 3000"] by simp
qed

text \<open>
  C10, as stated: the offset sent is \<open>(current - 1) * pageSize\<close>. The code multiplies
  doubles. On page 134217730 with a page size of 134217729 the exact product is
  18014398777917441, which is not a double; the offset sent is 18014398777917440.
\<close>

theorem full_refresh_offset_rounds:
  "map_option offset (snd (fetchData_begin far_page)) = Some (Finite 18014398777917440) \<and>
   (134217730 - 1) * 134217729 \<noteq> (18014398777917440 :: int)"
proof -
  have "js_mul (js_sub (Finite 134217730) (Finite 1)) (Finite 134217729)
          = Finite 18014398777917440"
    by code_simp
  then show ?thesis
    by (simp add: fetchData_begin_def fetchData_request_def far_page_def initial_store_def
        js_or_def Let_def)
qed

text \<open>
  C10, amended: a full refresh that is not dropped at the guard sends the offset
  \<open>(current - 1) * pageSize\<close> as double arithmetic computes it (the difference rounded,
  then the product rounded), where a \<open>current\<close> that is undefined or 0 counts as 1 and a
  \<open>pageSize\<close> that is undefined or 0 counts as 1000. While \<open>current - 1\<close> is below
  \<open>2 ^ 53\<close> in size, the offset is the exact product when that is below \<open>2 ^ 53\<close> in
  size too, and otherwise, when finite, differs from the exact product by at most one part
  in \<open>2 ^ 53\<close>. On page 1, and so in the store as constructed, the offset is 0.
\<close>

theorem full_refresh_offset:
  "\<not> isFetching s \<Longrightarrow>
     (let c = (case current (pagination s) of None \<Rightarrow> 1 | Some c \<Rightarrow> if c = 0 then 1 else c);
          p = (case pageSize (pagination s) of None \<Rightarrow> 1000 | Some p \<Rightarrow> if p = 0 then 1000 else p)
      in \<exists>rq. snd (fetchData_begin s) = Some rq \<and>
           offset rq = js_mul (js_sub (Finite c) (Finite 1)) (Finite p) \<and>
           (\<bar>c - 1\<bar> < 2 ^ 53 \<and> \<bar>(c - 1) * p\<bar> < 2 ^ 53 \<longrightarrow> offset rq = Finite ((c - 1) * p)) \<and>
           (\<bar>c - 1\<bar> < 2 ^ 53 \<longrightarrow>
              (\<forall>y. offset rq = Finite y \<longrightarrow> \<bar>y - (c - 1) * p\<bar> * 2 ^ 53 \<le> \<bar>(c - 1) * p\<bar>)) \<and>
           (current (pagination s) = Some 1 \<longrightarrow> offset rq = Finite 0))"
proof -
  assume idle: "\<not> isFetching s"
  define c where "c = js_or (current (pagination s)) 1"
  define p where "p = js_or (pageSize (pagination s)) 1000"
  define off where "off = js_mul (js_sub (Finite c) (Finite 1)) (Finite p)"
  have sent: "snd (fetchData_begin s) = Some (fetchData_request s\<lparr>offset := off\<rparr>)"
    using idle
    by (simp add: fetchData_begin_def fetchData_request_def Let_def off_def c_def p_def)
  have exact: "off = Finite ((c - 1) * p)" if "\<bar>c - 1\<bar> < 2 ^ 53" "\<bar>(c - 1) * p\<bar> < 2 ^ 53"
    using that unfolding off_def by (rule refresh_offset_exact)
  have near: "\<bar>y - (c - 1) * p\<bar> * 2 ^ 53 \<le> \<bar>(c - 1) * p\<bar>"
    if "\<bar>c - 1\<bar> < 2 ^ 53" "off = Finite y" for y
  proof -
    from that(1) have "off = to_double ((c - 1) * p)"
      by (simp add: off_def js_sub_def js_mul_def to_double_safe)
    with that(2) have "to_double ((c - 1) * p) = Finite y" by simp
    then show ?thesis by (rule to_double_error)
  qed
  have first: "off = Finite 0" if "current (pagination s) = Some 1"
    using that by (simp add: off_def c_def js_or_def refresh_offset_page1)
  have c': "(case current (pagination s) of None \<Rightarrow> 1 | Some c \<Rightarrow> if c = 0 then 1 else c) = c"
    and p': "(case pageSize (pagination s) of None \<Rightarrow> 1000 | Some p \<Rightarrow> if p = 0 then 1000 else p) = p"
    by (simp_all add: c_def p_def js_or_def)
  show ?thesis
    unfolding Let_def c' p'
    using sent exact near first by (auto simp: off_def)
qed

theorem full_refresh_offset_witness:
  "\<not> isFetching initial_store \<and>
   current (pagination initial_store) = Some 1 \<and>
   (\<exists>rq. snd (fetchData_begin initial_store) = Some rq \<and> offset rq = Finite 0)"
proof -
  have h: "\<not> isFetching initial_store" and c: "current (pagination initial_store) = Some 1"
    by (simp_all add: initial_store_def)
  show ?thesis
    using h c full_refresh_offset [OF h] by (auto simp: Let_def)
qed

text \<open>
  C6. However the request of a full refresh settles, \<open>isFetching\<close> and \<open>loading\<close> are
  both false afterwards. When it fails (the fetch throws, the status is not a success, or
  the body cannot be decoded), the error field holds the message and the rows are the
  rows from before.
\<close>

theorem full_refresh_failure_and_release:
  "\<not> isFetching (fetchData_finish s r) \<and> \<not> loading (fetchData_finish s r) \<and>
   (\<forall>e. await_result r = Inl e \<longrightarrow>
      error (fetchData_finish s r) = Some (message e) \<and> data (fetchData_finish s r) = data s)"
  by (simp add: fetchData_finish_def Let_def split: sum.splits)

theorem full_refresh_failure_and_release_witness:
  "await_result http_500 = Inl (ErrorObj ''HTTP error! status: 500'') \<and>
   \<not> isFetching (fetchData_finish (fst (fetchData_begin (cached 1000))) http_500) \<and>
   \<not> loading (fetchData_finish (fst (fetchData_begin (cached 1000))) http_500) \<and>
   error (fetchData_finish (fst (fetchData_begin (cached 1000))) http_500)
     = Some ''HTTP error! status: 500'' \<and>
   data (fetchData_finish (fst (fetchData_begin (cached 1000))) http_500) = replicate 1000 (row 0)"
proof -
  have d: "data (fst (fetchData_begin (cached 1000))) = replicate 1000 (row 0)"
    by (simp add: fetchData_begin_def cached_def initial_store_def Let_def)
  show ?thesis
    using await_http_500 d
      full_refresh_failure_and_release [of "fst (fetchData_begin (cached 1000))" http_500]
    by (simp add: message_def)
qed

section \<open>The setters\<close>

text \<open>The filter and search handlers put the pagination back on page 1.\<close>

lemma setFilters_resets_page:
  "current (pagination (fst (setFilters_handler fs s))) = Some 1 \<and>
   (case snd (setFilters_handler fs s) of None \<Rightarrow> isFetching s | Some rq \<Rightarrow> offset rq = Finite 0)"
  by (simp add: setFilters_handler_def fetchData_begin_def fetchData_request_def js_or_def Let_def
      refresh_offset_page1)

lemma setGlobalSearch_resets_page:
  "current (pagination (fst (setGlobalSearch_handler q s))) = Some 1 \<and>
   (case snd (setGlobalSearch_handler q s) of None \<Rightarrow> isFetching s | Some rq \<Rightarrow> offset rq = Finite 0)"
  by (simp add: setGlobalSearch_handler_def fetchData_begin_def fetchData_request_def js_or_def
      Let_def refresh_offset_page1)

text \<open>
  C1. Every mutation of the filters, the sorts or the search string puts the offset back
  to 0 and triggers a full refresh. The sort handler does not: unlike its two siblings it
  never writes \<open>current\<close>. On page 3 with a page size of 1000, a change of the sorts
  leaves the store on page 3 and the refresh it triggers asks for offset 2000.
\<close>

theorem setSorts_keeps_page:
  "current (pagination (fst (setSorts_handler [by_name] on_page3))) = Some 3 \<and>
   map_option offset (snd (setSorts_handler [by_name] on_page3)) = Some (Finite 2000)"
  by (simp add: setSorts_handler_def fetchData_begin_def fetchData_request_def on_page3_def
      initial_store_def js_or_def Let_def refresh_offset_exact)

section \<open>Scroll loads and the window\<close>

lemma length_slice_from:
  "length (slice_from xs start) =
     (if start < 0 then min (length xs) (nat (- start)) else length xs - nat start)"
  by (auto simp: slice_from_def Let_def)

lemma slice_from_negative:
  "start < 0 \<Longrightarrow> slice_from xs start = drop (length xs - nat (- start)) xs"
  by (auto simp: slice_from_def Let_def max_def intro: arg_cong [where f = "\<lambda>k. drop k xs"])




text \<open>
  The undisturbed scroll load in the event model: the scroll event fires and its request
  settles before anything else happens.
\<close>

lemma undisturbed_scroll_load:
  "snd (handleScroll t h c (store sys)) \<noteq> None \<Longrightarrow>
     store (run [ScrollEvent t h c, ScrollSettles (length (scrolling sys)) r] sys) =
       handleScrollLoad (store sys) (int (length (data (store sys))))
         (js_or (pageSize (pagination (store sys))) 1000) r"
  by (auto simp: handleScroll_def scroll_sent_def handleScrollLoad_def Let_def
      split: if_splits prod.splits)

text \<open>
  Why the bound needs the load to run undisturbed: scroll loads do not set \<open>loading\<close>, so
  a second scroll event is not held back while the first request is in flight. From a full
  cache the first call trims to 2000 rows, the second call sees 2000 rows and does not
  trim, and when both responses have arrived the cache holds 4000 rows.
\<close>

lemma interleaved_scroll_loads_overflow:
  "length (data (store (run [ScrollEvent 850 1000 100, ScrollEvent 850 1000 100,
                              ScrollSettles 1 (page_of 1000 2 5000),
                              ScrollSettles 0 (page_of 1000 1 5000)] full_cache))) = 4000"
  by (simp add: full_cache_def cached_def initial_store_def scroll_sent_def handleScroll_def
      handleScrollLoad_begin_def handleScrollLoad_finish_def await_page_of slice_from_def
      js_or_def Let_def)

text \<open>
  C3, as stated: a scroll load that fails leaves the rows as they were. The trim of lines
  126-128 runs before the request is sent and outside the \<^verbatim>\<open>try\<close>, so with a full
  cache of 3000 rows and a limit of 1000 the oldest 1000 rows are gone when the request
  fails.
\<close>

theorem failed_scroll_load_trims:
  "data (handleScrollLoad (cached 3000) 3000 1000 offline) \<noteq> data (cached 3000)"
proof -
  have "length (data (handleScrollLoad (cached 3000) 3000 1000 offline)) = 2000"
    by (simp add: handleScrollLoad_def handleScrollLoad_begin_def handleScrollLoad_finish_def
        await_offline cached_def initial_store_def length_slice_from)
  moreover have "length (data (cached 3000)) = 3000"
    by (simp add: cached_def)
  ultimately show ?thesis by auto
qed

text \<open>
  C3, amended: a scroll load that fails never changes the error field, the loading flag
  or the pagination, and appends nothing. The rows are the rows from before when the cache
  held fewer than \<open>maxRecords\<close> rows; otherwise they are the rows from before with the
  trim of the request applied, \<^verbatim>\<open>slice(-maxRecords + limit)\<close>.
\<close>

theorem failed_scroll_load:
  assumes "await_result r = Inl e"
  shows "error (handleScrollLoad s off lim r) = error s \<and>
         loading (handleScrollLoad s off lim r) = loading s \<and>
         pagination (handleScrollLoad s off lim r) = pagination s \<and>
         data (handleScrollLoad s off lim r) =
           (if int (length (data s)) < maxRecords s then data s
            else slice_from (data s) (- maxRecords s + lim))"
  using assms
  by (simp add: handleScrollLoad_def handleScrollLoad_begin_def handleScrollLoad_finish_def Let_def)

theorem failed_scroll_load_witness:
  "await_result offline = Inl (ErrorObj ''Failed to fetch'') \<and>
   error (handleScrollLoad (cached 2000) 2000 1000 offline) = None \<and>
   data (handleScrollLoad (cached 2000) 2000 1000 offline) = data (cached 2000)"
proof -
  have small: "int (length (data (cached 2000))) < maxRecords (cached 2000)"
    and err: "error (cached 2000) = None"
    by (simp_all add: cached_def initial_store_def)
  show ?thesis
    using await_offline small err
      failed_scroll_load [OF await_offline, of "cached 2000" 2000 1000]
    by simp
qed

text \<open>
  C4, as stated: a full cache keeps its last \<open>max (capacity - limit) 0\<close> rows before the
  response is appended. The code passes \<open>- maxRecords + limit\<close> to \<^verbatim>\<open>slice\<close> unclamped:
  with a capacity of 3000 and a limit of 4000 the start is 1000, which keeps the last 2000
  of 3000 rows, not none. (With a limit of 3000 the start is 0 and every row is kept.)
\<close>

theorem trim_not_clamped:
  "data (handleScrollLoad (cached 3000) 3000 4000 (page_of 1000 1 5000)) \<noteq>
     drop (length (data (cached 3000)) - nat (max (maxRecords (cached 3000) - 4000) 0))
          (data (cached 3000))
       @ replicate 1000 (row 1)"
proof -
  have "length (data (handleScrollLoad (cached 3000) 3000 4000 (page_of 1000 1 5000))) = 3000"
    by (simp add: handleScrollLoad_def handleScrollLoad_begin_def handleScrollLoad_finish_def
        await_page_of cached_def initial_store_def length_slice_from)
  moreover have
    "length (drop (length (data (cached 3000)) - nat (max (maxRecords (cached 3000) - 4000) 0))
                  (data (cached 3000))
               @ replicate 1000 (row 1)) = 1000"
    by (simp add: cached_def initial_store_def)
  ultimately show ?thesis by auto
qed

text \<open>
  C4, amended: a successful scroll-load append puts the rows of the response after the
  rows the store holds when the response arrives. For a scroll load that runs from its
  call to its append with nothing else changing the rows in between, with \<open>n\<close> rows before
  the call, capacity \<open>c = maxRecords\<close> and limit \<open>l\<close>: when \<open>n < c\<close> nothing is trimmed;
  when \<open>n \<ge> c\<close> and \<open>l < c\<close> the cache first keeps only its last \<open>c - l\<close> rows (all
  of them when it has fewer); when
  \<open>n \<ge> c\<close> and \<open>l \<ge> c\<close> it first drops its first \<open>l - c\<close> rows (there is no clamp: with
  \<open>l = c\<close> nothing is dropped); then the rows of the response are appended to the tail.
  With a capacity of 3000, a limit of 1000, 3000 rows before and 1000 rows in the response,
  the result has 3000 rows: the last 2000 old ones, then the 1000 new ones.
\<close>

theorem scroll_load_window:
  assumes "await_result r = Inr res"
  shows "data (handleScrollLoad_finish s' r) = data s' @ rdata res \<and>
         data (handleScrollLoad s off lim r) =
           (if int (length (data s)) < maxRecords s then data s
            else if lim < maxRecords s
              then drop (length (data s) - nat (maxRecords s - lim)) (data s)
              else drop (nat (lim - maxRecords s)) (data s))
           @ rdata res \<and>
         (maxRecords s = 3000 \<and> lim = 1000 \<and> length (data s) = 3000 \<and> length (rdata res) = 1000
            \<longrightarrow> length (data (handleScrollLoad s off lim r)) = 3000 \<and>
                data (handleScrollLoad s off lim r) = drop 1000 (data s) @ rdata res)"
proof -
  have fin: "data (handleScrollLoad_finish s' r) = data s' @ rdata res"
    using assms by (simp add: handleScrollLoad_finish_def)
  have below: "slice_from (data s) (- maxRecords s + lim)
                 = drop (length (data s) - nat (maxRecords s - lim)) (data s)"
    if "lim < maxRecords s"
  proof -
    from that have neg: "- maxRecords s + lim < 0" by simp
    have "nat (- (- maxRecords s + lim)) = nat (maxRecords s - lim)" by simp
    with slice_from_negative [OF neg, of "data s"] show ?thesis by simp
  qed
  have above: "slice_from (data s) (- maxRecords s + lim) = drop (nat (lim - maxRecords s)) (data s)"
    if "\<not> lim < maxRecords s"
  proof -
    from that have "0 \<le> - maxRecords s + lim" by simp
    then have "slice_from (data s) (- maxRecords s + lim) = drop (nat (- maxRecords s + lim)) (data s)"
      by (rule slice_from_nonneg)
    moreover have "- maxRecords s + lim = lim - maxRecords s" by simp
    ultimately show ?thesis by simp
  qed
  have main: "data (handleScrollLoad s off lim r) =
           (if int (length (data s)) < maxRecords s then data s
            else if lim < maxRecords s
              then drop (length (data s) - nat (maxRecords s - lim)) (data s)
              else drop (nat (lim - maxRecords s)) (data s))
           @ rdata res"
    using assms below above
    by (simp add: handleScrollLoad_def handleScrollLoad_begin_def handleScrollLoad_finish_def)
  show ?thesis using fin main by auto
qed

theorem scroll_load_window_witness:
  "await_result (page_of 1000 1 5000) = Inr \<lparr>rdata = replicate 1000 (row 1), rtotal = 5000\<rparr> \<and>
   data (handleScrollLoad_finish (cached 2000) (page_of 1000 1 5000))
     = replicate 2000 (row 0) @ replicate 1000 (row 1) \<and>
   length (data (handleScrollLoad (cached 3000) 3000 1000 (page_of 1000 1 5000))) = 3000 \<and>
   data (handleScrollLoad (cached 3000) 3000 1000 (page_of 1000 1 5000))
     = replicate 2000 (row 0) @ replicate 1000 (row 1)"
proof -
  have a: "await_result (page_of 1000 1 5000) = Inr \<lparr>rdata = replicate 1000 (row 1), rtotal = 5000\<rparr>"
    by (rule await_page_of)
  have m: "maxRecords (cached 3000) = 3000"
    and d: "data (cached 3000) = replicate 3000 (row 0)"
    and d': "data (cached 2000) = replicate 2000 (row 0)"
    by (simp_all add: cached_def initial_store_def)
  show ?thesis
    using a m d d' scroll_load_window [OF a, of "cached 2000" "cached 3000" 3000 1000]
    by simp
qed

section \<open>The guard of the full refresh\<close>

lemma guard_inv_boot: "guard_inv boot"
  by (simp add: guard_inv_def boot_def initial_store_def)

lemma guard_inv_refresh_sent:
  assumes "guard_inv sys"
    and "isFetching s = isFetching (store sys)" and "loading s = loading (store sys)"
  shows "guard_inv (refresh_sent (fetchData_begin s) sys)"
  using assms
  by (cases "refreshing sys")
    (auto simp: guard_inv_def refresh_sent_def fetchData_begin_def Let_def)

lemma handleScroll_flags:
  "isFetching (fst (handleScroll t h c s)) = isFetching s \<and>
   loading (fst (handleScroll t h c s)) = loading s"
  by (simp add: handleScroll_def handleScrollLoad_begin_def Let_def)

lemma handleScrollLoad_finish_flags:
  "isFetching (handleScrollLoad_finish s r) = isFetching s \<and>
   loading (handleScrollLoad_finish s r) = loading s"
  by (simp add: handleScrollLoad_finish_def split: sum.splits)

lemma fetchData_finish_flags:
  "\<not> isFetching (fetchData_finish s r) \<and> \<not> loading (fetchData_finish s r)"
  by (simp add: fetchData_finish_def Let_def split: sum.splits)

lemma guard_inv_step:
  assumes inv: "guard_inv sys"
  shows "guard_inv (step e sys)"
proof (cases e)
  case CallFetchData
  with inv show ?thesis by (simp add: guard_inv_refresh_sent)
next
  case (CallSetPagination p)
  with inv show ?thesis by (simp add: setPagination_def guard_inv_refresh_sent)
next
  case (FiltersFire fs)
  with inv show ?thesis by (simp add: setFilters_handler_def guard_inv_refresh_sent)
next
  case (SortsFire ss)
  with inv show ?thesis by (simp add: setSorts_handler_def guard_inv_refresh_sent)
next
  case (SearchFire q)
  with inv show ?thesis by (simp add: setGlobalSearch_handler_def guard_inv_refresh_sent)
next
  case (ScrollEvent t h c)
  with inv handleScroll_flags [of t h c "store sys"] show ?thesis
    by (simp add: guard_inv_def scroll_sent_def)
next
  case (RefreshSettles r)
  with inv fetchData_finish_flags [of "store sys" r] show ?thesis
    by (cases "refreshing sys") (auto simp: guard_inv_def)
next
  case (ScrollSettles i r)
  with inv handleScrollLoad_finish_flags [of "store sys" r] show ?thesis
    by (simp add: guard_inv_def)
qed

lemma guard_inv_run: "guard_inv sys \<Longrightarrow> guard_inv (run evs sys)"
  by (induction evs arbitrary: sys) (simp_all add: guard_inv_step)

lemma guard_inv_reachable: "guard_inv (run evs boot)"
  by (simp add: guard_inv_run guard_inv_boot)

lemma first_page_state:
  "run first_page_loaded boot =
     \<lparr>store = initial_store\<lparr>data := replicate 1000 (row 0),
         pagination := \<lparr>current = Some 1, pageSize = Some 1000, total_rows = Some 5000\<rparr>\<rparr>,
      refreshing = [], scrolling = []\<rparr>"
  by (simp add: first_page_loaded_def boot_def initial_store_def refresh_sent_def
      fetchData_begin_def fetchData_finish_def await_page_of Let_def)

text \<open>
  C5. After any sequence of events from the start, at most one full refresh is in flight;
  and while one is in flight, a call of \<open>fetchData\<close> sends no request and returns the
  store as it was.
\<close>

theorem at_most_one_full_refresh:
  "length (refreshing (run evs boot)) \<le> 1 \<and>
   (refreshing (run evs boot) \<noteq> [] \<longrightarrow>
      fetchData_begin (store (run evs boot)) = (store (run evs boot), None))"
  using guard_inv_reachable [of evs]
  by (simp add: guard_inv_def fetchData_begin_def)

text \<open>The table mounts and, before the first request settles, the filters and the sorts fire.\<close>

theorem at_most_one_full_refresh_witness:
  "refreshing (run [CallFetchData, FiltersFire [], SortsFire [by_name]] boot) \<noteq> [] \<and>
   length (refreshing (run [CallFetchData, FiltersFire [], SortsFire [by_name]] boot)) \<le> 1 \<and>
   fetchData_begin (store (run [CallFetchData, FiltersFire [], SortsFire [by_name]] boot))
     = (store (run [CallFetchData, FiltersFire [], SortsFire [by_name]] boot), None)"
proof -
  have h: "refreshing (run [CallFetchData, FiltersFire [], SortsFire [by_name]] boot) \<noteq> []"
    by (simp add: boot_def initial_store_def refresh_sent_def fetchData_begin_def
        setFilters_handler_def setSorts_handler_def Let_def)
  show ?thesis
    using h at_most_one_full_refresh [of "[CallFetchData, FiltersFire [], SortsFire [by_name]]"]
    by simp
qed

section \<open>The scroll trigger\<close>

text \<open>
  C8. In any state the view can reach, a scroll event sends a scroll-load request exactly
  when the unscrolled remainder \<open>scrollHeight - (scrollTop + clientHeight)\<close> is below 100,
  no full refresh is in flight, and the cache holds fewer rows than the known total
  (taken as 0 when unset). The request then asks for the offset equal to the number of
  cached rows and for the limit \<open>pageSize\<close>, or 1000 when that is unset.
\<close>

theorem scroll_trigger:
  "(let sys = run evs boot; s = store sys; out = snd (handleScroll t h c s) in
     (out \<noteq> None) =
       (h - (t + c) < 100 \<and> refreshing sys = []
        \<and> int (length (data s)) < js_or (total_rows (pagination s)) 0)
     \<and> (\<forall>rq. out = Some rq \<longrightarrow>
           offset rq = Finite (int (length (data s)))
           \<and> limit rq = Some (js_or (pageSize (pagination s)) 1000)))"
  using guard_inv_reachable [of evs]
  by (auto simp: guard_inv_def handleScroll_def handleScrollLoad_begin_def Let_def)

text \<open>
  With the first 1000 of 5000 rows loaded and the viewport 50 units above the bottom, the
  trigger asks for offset 1000 and limit 1000.
\<close>

theorem scroll_trigger_witness:
  "refreshing (run first_page_loaded boot) = [] \<and>
   (\<exists>rq. snd (handleScroll 850 1000 100 (store (run first_page_loaded boot))) = Some rq \<and>
      offset rq = Finite 1000 \<and> limit rq = Some 1000)"
proof -
  have fire: "snd (handleScroll 850 1000 100 (store (run first_page_loaded boot))) \<noteq> None"
    by (simp add: first_page_state handleScroll_def handleScrollLoad_begin_def
        initial_store_def js_or_def Let_def)
  have vals: "int (length (data (store (run first_page_loaded boot)))) = 1000 \<and>
              js_or (pageSize (pagination (store (run first_page_loaded boot)))) 1000 = 1000"
    by (simp add: first_page_state js_or_def)
  show ?thesis
    using fire vals scroll_trigger [of first_page_loaded 850 1000 100]
    by (auto simp: Let_def)
qed

section \<open>Debounced setters\<close>

lemma schedule_all_pending:
  "pending d = Some (t + quiet d, a) \<Longrightarrow> within_quiet (quiet d) t cs \<Longrightarrow>
     schedule_all cs d =
       ([], d\<lparr>pending := Some (fst (last ((t, a) # cs)) + quiet d, snd (last ((t, a) # cs)))\<rparr>)"
proof (induction cs arbitrary: t a d)
  case Nil
  then show ?case by simp
next
  case (Cons c cs)
  obtain t' a' where c: "c = (t', a')" by (cases c)
  from Cons.prems c have lt: "t' < t + quiet d" and rest: "within_quiet (quiet d) t' cs"
    by simp_all
  let ?d1 = "d\<lparr>pending := Some (t' + quiet d, a')\<rparr>"
  have s1: "schedule t' a' d = ([], ?d1)"
    using Cons.prems(1) lt by (simp add: schedule_def elapse_def)
  have p1: "pending ?d1 = Some (t' + quiet ?d1, a')" and r1: "within_quiet (quiet ?d1) t' cs"
    using rest by simp_all
  have "schedule_all cs ?d1 =
          ([], ?d1\<lparr>pending := Some (fst (last ((t', a') # cs)) + quiet ?d1,
                                  snd (last ((t', a') # cs)))\<rparr>)"
    using Cons.IH [OF p1 r1] .
  then show ?case using s1 c by simp
qed

lemma handler_calls_burst:
  assumes b: "burst w cs"
  shows "handler_calls w cs = [snd (last cs)]"
proof (cases cs)
  case Nil
  with b show ?thesis by simp
next
  case (Cons c cs')
  obtain t a where c: "c = (t, a)" by (cases c)
  let ?d0 = "\<lparr>quiet = w, pending = None\<rparr> :: 'a debounced"
  let ?d1 = "\<lparr>quiet = w, pending = Some (t + w, a)\<rparr> :: 'a debounced"
  have s1: "schedule t a ?d0 = ([], ?d1)"
    by (simp add: schedule_def elapse_def)
  have p1: "pending ?d1 = Some (t + quiet ?d1, a)" and r1: "within_quiet (quiet ?d1) t cs'"
    using b Cons c by simp_all
  have "schedule_all cs' ?d1 =
          ([], ?d1\<lparr>pending := Some (fst (last ((t, a) # cs')) + quiet ?d1,
                                  snd (last ((t, a) # cs')))\<rparr>)"
    using schedule_all_pending [OF p1 r1] .
  then show ?thesis using s1 Cons c by (simp add: handler_calls_def)
qed

text \<open>
  C7. A burst of calls on one debounced channel (filters and sorts with a quiet period of
  300 ms, search with 500 ms), each call less than the quiet period after the one before,
  causes exactly one invocation of the handler, with the arguments of the last call.
\<close>

theorem debounce_burst_runs_last_only:
  "burst (quiet_period ch) cs \<Longrightarrow> handler_calls (quiet_period ch) cs = [snd (last cs)]"
  by (rule handler_calls_burst)

theorem debounce_burst_runs_last_only_witness:
  "burst (quiet_period SearchChannel) typing \<and>
   handler_calls (quiet_period SearchChannel) typing = [''kasp'']"
proof -
  have h: "burst (quiet_period SearchChannel) typing"
    by (simp add: typing_def)
  show ?thesis
    using h debounce_burst_runs_last_only [OF h] by (simp add: typing_def)
qed

end
